theory Spec2Isabelle
  imports Main "HOL-Library.Char_ord" "HOL-Library.List_Lexorder"
begin

section \<open>Python text primitives used by the R builder\<close>

text \<open>
  The builder in \<^verbatim>\<open>lib/spack/spack/build_systems/r.py\<close> works on Python \<^verbatim>\<open>str\<close> values.
  A \<^typ>\<open>char\<close> stands for one code point below 256 (the Latin-1 range), a \<^typ>\<open>string\<close>
  for a \<^verbatim>\<open>str\<close> of such code points. The character classes below are Python's own
  classes restricted to that range.
\<close>

definition ord :: "char \<Rightarrow> nat" where
  "ord c = of_char c"

text \<open>\<^verbatim>\<open>str.isspace\<close> (also the class \<^verbatim>\<open>\s\<close> of \<^verbatim>\<open>re\<close>): TAB..CR, FS..US, space, NEL, NBSP.\<close>

definition isspace :: "char \<Rightarrow> bool" where
  "isspace c = (let n = ord c in (9 \<le> n \<and> n \<le> 13) \<or> (28 \<le> n \<and> n \<le> 32) \<or> n = 133 \<or> n = 160)"

text \<open>\<^verbatim>\<open>str.isupper\<close> on one cased character: A..Z and the Latin-1 capitals.\<close>

definition isupper :: "char \<Rightarrow> bool" where
  "isupper c = (let n = ord c in (65 \<le> n \<and> n \<le> 90) \<or> (192 \<le> n \<and> n \<le> 222 \<and> n \<noteq> 215))"

text \<open>\<^verbatim>\<open>str.isalpha\<close> on one character: the letters of the Latin-1 range.\<close>

definition isalpha :: "char \<Rightarrow> bool" where
  "isalpha c = (let n = ord c in
     (65 \<le> n \<and> n \<le> 90) \<or> (97 \<le> n \<and> n \<le> 122) \<or> n = 170 \<or> n = 181 \<or> n = 186 \<or>
     (192 \<le> n \<and> n \<le> 255 \<and> n \<noteq> 215 \<and> n \<noteq> 247))"

text \<open>The class \<^verbatim>\<open>\d\<close> of \<^verbatim>\<open>re\<close>: the decimal digits.\<close>

definition isdecimal :: "char \<Rightarrow> bool" where
  "isdecimal c = (let n = ord c in 48 \<le> n \<and> n \<le> 57)"

text \<open>\<^verbatim>\<open>str.isalnum\<close>: letters, decimal digits, and the superscript digits and vulgar
  fractions of Latin-1, which Python counts as digits and numerics.\<close>

definition isalnum :: "char \<Rightarrow> bool" where
  "isalnum c = (let n = ord c in
     isalpha c \<or> isdecimal c \<or> n = 178 \<or> n = 179 \<or> n = 185 \<or> (188 \<le> n \<and> n \<le> 190))"

text \<open>\<^verbatim>\<open>str.lower\<close>: a capital moves 32 code points up, every other character stays.\<close>

definition lower_char :: "char \<Rightarrow> char" where
  "lower_char c = (if isupper c then char_of (ord c + 32) else c)"

definition lower :: "string \<Rightarrow> string" where
  "lower s = map lower_char s"

text \<open>\<^verbatim>\<open>str.strip()\<close> removes leading and trailing whitespace.\<close>

definition strip :: "string \<Rightarrow> string" where
  "strip s = rev (dropWhile isspace (rev (dropWhile isspace s)))"

text \<open>The line boundaries of \<^verbatim>\<open>str.splitlines()\<close>: LF, VT, FF, CR, FS, GS, RS, NEL, and
  CR LF as one boundary. A final line with no boundary after it is kept when non-empty.\<close>

definition is_linebreak :: "char \<Rightarrow> bool" where
  "is_linebreak c = (let n = ord c in (10 \<le> n \<and> n \<le> 13) \<or> (28 \<le> n \<and> n \<le> 30) \<or> n = 133)"

fun splitlines_from :: "string \<Rightarrow> string \<Rightarrow> string list" where
  "splitlines_from cur [] = (if cur = [] then [] else [cur])"
| "splitlines_from cur (c # cs) =
     (if c = CHR 0x0D then
        (case cs of
           [] \<Rightarrow> [cur]
         | d # ds \<Rightarrow> if d = CHR 0x0A then cur # splitlines_from [] ds
                    else cur # splitlines_from [] cs)
      else if is_linebreak c then cur # splitlines_from [] cs
      else splitlines_from (cur @ [c]) cs)"

definition splitlines :: "string \<Rightarrow> string list" where
  "splitlines data = splitlines_from [] data"

text \<open>\<^verbatim>\<open>s.split(sep)\<close> for a one-character separator: every occurrence splits, empty
  fragments are kept.\<close>

fun split_from :: "char \<Rightarrow> string \<Rightarrow> string \<Rightarrow> string list" where
  "split_from sep cur [] = [cur]"
| "split_from sep cur (c # cs) =
     (if c = sep then cur # split_from sep [] cs else split_from sep (cur @ [c]) cs)"

definition split_on :: "char \<Rightarrow> string \<Rightarrow> string list" where
  "split_on sep s = split_from sep [] s"

text \<open>\<^verbatim>\<open>s.split(sep, maxsplit=1)\<close>: split at the first occurrence only.\<close>

definition split_max1 :: "char \<Rightarrow> string \<Rightarrow> string list" where
  "split_max1 sep s =
     (if sep \<in> set s then [takeWhile (\<lambda>c. c \<noteq> sep) s, tl (dropWhile (\<lambda>c. c \<noteq> sep) s)]
      else [s])"

section \<open>Dictionaries\<close>

text \<open>A Python \<^verbatim>\<open>dict\<close> keeps its keys in insertion order: an association list in
  which assignment to a present key replaces the value in place and assignment to a new
  key appends.\<close>

type_synonym ('k, 'v) dict = "('k \<times> 'v) list"

fun dict_set :: "('k, 'v) dict \<Rightarrow> 'k \<Rightarrow> 'v \<Rightarrow> ('k, 'v) dict" where
  "dict_set [] k v = [(k, v)]"
| "dict_set ((k', v') # d) k v = (if k' = k then (k, v) # d else (k', v') # dict_set d k v)"

definition keys :: "('k, 'v) dict \<Rightarrow> 'k list" where
  "keys d = map fst d"

section \<open>Errors\<close>

datatype error =
    IndexError
  | AssertionError string
  | ImportError
  | KeyError string
  | OSError
  | SpecError string
  | MergeError

section \<open>The metadata record parser: \<^verbatim>\<open>RBuilder.parse_description\<close>\<close>

type_synonym description = "(string, string) dict"

text \<open>The two local variables of the generator.\<close>

record pstate =
  fieldset :: "string set"
  package :: description

text \<open>The closure \<^verbatim>\<open>append\<close>: extend the value of the last item of \<^verbatim>\<open>package\<close>, if any.\<close>

definition append_last :: "description \<Rightarrow> string \<Rightarrow> description" where
  "append_last pkg field_value =
     (if pkg = [] then pkg
      else let last_field = fst (last pkg)
           in dict_set pkg last_field (the (map_of pkg last_field) @ field_value))"

text \<open>One iteration of the loop over the lines: the new state and the record yielded in
  this iteration, if any; \<^term>\<open>Inl\<close> when the iteration raises. \<^verbatim>\<open>field[0]\<close> on an empty
  \<^verbatim>\<open>field\<close> raises IndexError.\<close>

definition parse_line :: "pstate \<Rightarrow> string \<Rightarrow> error + pstate \<times> description option" where
  "parse_line st line =
     (if strip line = [] then Inr (st, None)
      else if CHR '':'' \<in> set line then
        (let parts = split_max1 (CHR '':'') line;
             field = strip (hd parts);
             value = strip (concat (tl parts))
         in case field of
              [] \<Rightarrow> Inl IndexError
            | c # _ \<Rightarrow>
               (let (field, value) = (if \<not> isalpha c then ([], line) else (field, value))
                in if field \<noteq> [] \<and> field \<in> fieldset st then
                     Inr (\<lparr>fieldset = {field}, package = [(field, value)]\<rparr>,
                          if package st \<noteq> [] then Some (package st) else None)
                   else if field \<noteq> [] then
                     Inr (\<lparr>fieldset = insert field (fieldset st),
                           package = dict_set (package st) field (strip value)\<rparr>, None)
                   else
                     Inr (st\<lparr>package := append_last (package st) (CHR '' '' # strip value)\<rparr>,
                          None)))
      else Inr (st\<lparr>package := append_last (package st) (CHR '' '' # strip line)\<rparr>, None))"

text \<open>The loop: the records yielded while the lines are consumed, and the state at the
  end of the loop or the exception that ended it.\<close>

fun parse_lines :: "pstate \<Rightarrow> string list \<Rightarrow> description list \<times> (error + pstate)" where
  "parse_lines st [] = ([], Inr st)"
| "parse_lines st (line # rest) =
     (case parse_line st line of
        Inl e \<Rightarrow> ([], Inl e)
      | Inr (st', y) \<Rightarrow>
          (case parse_lines st' rest of
             (ys, r) \<Rightarrow> ((case y of None \<Rightarrow> [] | Some rec \<Rightarrow> [rec]) @ ys, r)))"

definition init_pstate :: pstate where
  "init_pstate = \<lparr>fieldset = {}, package = []\<rparr>"

text \<open>The generator as its consumer sees it: the records it yields, in order, and the
  exception that ends it, if one does.\<close>

definition parse_description :: "string \<Rightarrow> description list \<times> error option" where
  "parse_description data =
     (case parse_lines init_pstate (splitlines data) of
        (ys, Inl e) \<Rightarrow> (ys, Some e)
      | (ys, Inr st) \<Rightarrow> (ys @ (if package st \<noteq> [] then [package st] else []), None))"

section \<open>The dependency reconciler: the \<^verbatim>\<open>try\<close> block of \<^verbatim>\<open>RBuilder.install\<close>\<close>

subsection \<open>The regular expressions\<close>

text \<open>\<^verbatim>\<open>re.search(r"^[\w_-]+", r_dep)\<close>: the longest leading run of word characters
  (\<^verbatim>\<open>\w\<close> is \<^verbatim>\<open>str.isalnum\<close> or underscore) and dashes; no match when the run is empty.\<close>

definition is_namechar :: "char \<Rightarrow> bool" where
  "is_namechar c = (isalnum c \<or> c = CHR ''_'' \<or> c = CHR ''-'')"

definition search_name :: "string \<Rightarrow> string option" where
  "search_name r_dep =
     (let p = takeWhile is_namechar r_dep in if p = [] then None else Some p)"

text \<open>\<^verbatim>\<open>re.search("(?<=[(]).*(?=[)])", r_dep)\<close>: the match starts right after the leftmost
  opening parenthesis that has a closing one later on its line (\<^verbatim>\<open>.\<close> does not match LF), and,
  \<^verbatim>\<open>.*\<close> being greedy, runs up to the last closing parenthesis of that line.\<close>

fun search_parens :: "string \<Rightarrow> string option" where
  "search_parens [] = None"
| "search_parens (c # cs) =
     (if c = CHR ''('' then
        (let seg = takeWhile (\<lambda>x. x \<noteq> CHR 0x0A) cs
         in if CHR '')'' \<in> set seg
            then Some (rev (tl (dropWhile (\<lambda>x. x \<noteq> CHR '')'') (rev seg))))
            else search_parens cs)
      else search_parens cs)"

text \<open>The class \<^verbatim>\<open>[\d.-]\<close>.\<close>

definition is_verchar :: "char \<Rightarrow> bool" where
  "is_verchar c = (isdecimal c \<or> c = CHR ''.'' \<or> c = CHR ''-'')"

text \<open>A match of \<^verbatim>\<open>op\s([\d.-]+)\<close> at the start of a text: the group and the text after the
  match. The operator is followed by exactly one whitespace character.\<close>

definition match_version :: "string \<Rightarrow> string \<Rightarrow> (string \<times> string) option" where
  "match_version op s =
     (if take (length op) s = op then
        (case drop (length op) s of
           [] \<Rightarrow> None
         | w # t \<Rightarrow>
             if isspace w \<and> takeWhile is_verchar t \<noteq> []
             then Some (takeWhile is_verchar t, dropWhile is_verchar t)
             else None)
      else None)"

text \<open>\<^verbatim>\<open>re.sub(op + r"\s([\d.-]+)", r"@\1" + suffix, s)\<close>: every match, found from left to
  right, is replaced; the text between matches is kept.\<close>

function sub_version :: "string \<Rightarrow> string \<Rightarrow> string \<Rightarrow> string" where
  "sub_version op suffix [] = []"
| "sub_version op suffix (c # cs) =
     (case match_version op (c # cs) of
        Some (ver, rest) \<Rightarrow> ''@'' @ ver @ suffix @ sub_version op suffix rest
      | None \<Rightarrow> c # sub_version op suffix cs)"
  by pat_completeness auto
termination
proof (relation "measure (\<lambda>(op, suffix, s). length s)")
  fix op suffix :: string and c :: char and cs x2 ver rest
  assume "match_version op (c # cs) = Some x2" "(ver, rest) = x2"
  then have m: "match_version op (c # cs) = Some (ver, rest)" by simp
  then obtain w t where d: "drop (length op) (c # cs) = w # t" and r: "rest = dropWhile is_verchar t"
    by (auto simp: match_version_def split: if_splits list.splits)
  have "length rest \<le> length t"
    by (simp add: r length_dropWhile_le)
  moreover have "length (w # t) \<le> length (c # cs)"
    using d by (metis length_drop diff_le_self)
  ultimately show "((op, suffix, rest), (op, suffix, c # cs)) \<in> measure (\<lambda>(op, suffix, s). length s)"
    by simp
qed simp_all

subsection \<open>Foreign specifiers\<close>

text \<open>\<^verbatim>\<open>[d.strip() for d in value.split(",") if d != ""]\<close>: the test is on the fragment as
  split, before it is stripped.\<close>

definition dep_list :: "string \<Rightarrow> string list" where
  "dep_list v = map strip (filter (\<lambda>d. d \<noteq> []) (split_on (CHR '','') v))"

text \<open>The loop over the parsed records: the \<^verbatim>\<open>Imports\<close> fragments of a record, then its
  \<^verbatim>\<open>Depends\<close> fragments.\<close>

fun collect_r_deps :: "description list \<Rightarrow> string list" where
  "collect_r_deps [] = []"
| "collect_r_deps (desc # rest) =
     (case map_of desc ''Imports'' of None \<Rightarrow> [] | Some v \<Rightarrow> dep_list v) @
     (case map_of desc ''Depends'' of None \<Rightarrow> [] | Some v \<Rightarrow> dep_list v) @
     collect_r_deps rest"

text \<open>The text part of one iteration of the normalisation loop: the key \<^verbatim>\<open>r_spec\<close> and the
  argument handed to \<^verbatim>\<open>Spec\<close>. The assertion is the only statement here that can raise.\<close>

definition dep_text :: "string \<Rightarrow> error + string \<times> string" where
  "dep_text r_dep =
     (let p = search_name r_dep;
          v = search_parens r_dep
      in case p of
           None \<Rightarrow> Inl (AssertionError (''Unable to find package name in '' @ r_dep))
         | Some p0 \<Rightarrow>
            (let r_spec = (if lower p0 \<noteq> ''r'' then ''r-'' @ lower (strip p0) else ''r'')
             in case v of
                  Some v0 \<Rightarrow>
                    (let v1 = sub_version ''>='' '':'' v0;
                         v2 = sub_version ''=='' [] v1
                     in Inr (r_spec, r_spec @ v2))
                | None \<Rightarrow> Inr (r_spec, r_spec)))"

subsection \<open>The host's dependency model\<close>

text \<open>Spack's \<^verbatim>\<open>Spec\<close>, \<^verbatim>\<open>Dependency\<close> and \<^verbatim>\<open>deptypes\<close> are not part of the sources at hand.
  A spec is a value of a type parameter; what the builder calls on it is a parameter too,
  collected in \<open>spack\<close> below. A dependency is the triple its constructor receives, the
  package given by name.\<close>

datatype deptype = BUILD | LINK | RUN | TEST

record 'spec dependency =
  dep_pkg :: string
  dep_spec :: "'spec"
  depflag :: "deptype set"

record 'spec spack =
  Spec :: "string \<Rightarrow> 'spec option"
  satisfies :: "'spec \<Rightarrow> 'spec \<Rightarrow> bool"
  spec_str :: "'spec \<Rightarrow> string"
  dep_eq_key :: "'spec dependency \<Rightarrow> string \<Rightarrow> bool"
  merge :: "'spec dependency \<Rightarrow> 'spec dependency \<Rightarrow> 'spec dependency option"

text \<open>\<open>Spec sp t\<close> is \<^verbatim>\<open>Spec(t)\<close>, \<open>None\<close> when the constructor raises; \<open>satisfies sp a b\<close> is
  \<^verbatim>\<open>a.satisfies(b)\<close>; \<open>spec_str sp s\<close> is \<^verbatim>\<open>str(s)\<close>; \<open>dep_eq_key sp d k\<close> is Python's equality
  of the dependency object \<open>d\<close> and the dictionary key \<open>k\<close>, which decides \<^verbatim>\<open>d in merged_dependencies\<close>;
  \<open>merge sp d0 d\<close> is \<open>d0\<close> after \<^verbatim>\<open>d0.merge(d)\<close>, \<open>None\<close> when the merge raises.\<close>

record 'spec pkg =
  pkg_name :: string
  version :: string
  dependencies :: "('spec, (string, 'spec dependency) dict) dict"

type_synonym 'spec deps = "(string, 'spec dependency) dict"

text \<open>One iteration of the normalisation loop, and the loop: \<^verbatim>\<open>deps[r_spec] = Dependency(...)\<close>.\<close>

definition normalize_dep ::
  "'spec spack \<Rightarrow> string \<Rightarrow> string \<Rightarrow> error + string \<times> 'spec dependency" where
  "normalize_dep sp p r_dep =
     (case dep_text r_dep of
        Inl e \<Rightarrow> Inl e
      | Inr (r_spec, t) \<Rightarrow>
         (case Spec sp t of
            None \<Rightarrow> Inl (SpecError t)
          | Some s \<Rightarrow> Inr (r_spec, \<lparr>dep_pkg = p, dep_spec = s, depflag = {BUILD, RUN}\<rparr>)))"

fun build_deps ::
  "'spec spack \<Rightarrow> string \<Rightarrow> 'spec deps \<Rightarrow> string list \<Rightarrow> error + 'spec deps" where
  "build_deps sp p deps [] = Inr deps"
| "build_deps sp p deps (r_dep # rest) =
     (case normalize_dep sp p r_dep of
        Inl e \<Rightarrow> Inl e
      | Inr (r_spec, d) \<Rightarrow> build_deps sp p (dict_set deps r_spec d) rest)"

text \<open>The rules of the recipe that apply to the concrete spec, and their merge by name.\<close>

definition spack_dependencies ::
  "'spec spack \<Rightarrow> 'spec pkg \<Rightarrow> 'spec \<Rightarrow> 'spec deps list" where
  "spack_dependencies sp p spec =
     map snd (filter (\<lambda>(when, dep). satisfies sp spec when) (dependencies p))"

fun merge_items :: "'spec spack \<Rightarrow> 'spec deps \<Rightarrow> 'spec deps \<Rightarrow> error + 'spec deps" where
  "merge_items sp merged [] = Inr merged"
| "merge_items sp merged ((n, d) # rest) =
     (if list_ex (dep_eq_key sp d) (keys merged) then
        (case map_of merged n of
           None \<Rightarrow> Inl (KeyError n)
         | Some d0 \<Rightarrow>
            (case merge sp d0 d of
               None \<Rightarrow> Inl MergeError
             | Some d' \<Rightarrow> merge_items sp (dict_set merged n d') rest))
      else merge_items sp (dict_set merged n d) rest)"

fun merge_dependencies ::
  "'spec spack \<Rightarrow> 'spec deps \<Rightarrow> 'spec deps list \<Rightarrow> error + 'spec deps" where
  "merge_dependencies sp merged [] = Inr merged"
| "merge_dependencies sp merged (dep # rest) =
     (case merge_items sp merged dep of
        Inl e \<Rightarrow> Inl e
      | Inr merged' \<Rightarrow> merge_dependencies sp merged' rest)"

subsection \<open>The comparison loop\<close>

text \<open>The line handed to \<^verbatim>\<open>tty.debug\<close>; both branches of the loop print the same text.\<close>

definition depends_on_line :: "'spec spack \<Rightarrow> 'spec pkg \<Rightarrow> 'spec dependency \<Rightarrow> string" where
  \<open>depends_on_line sp p d =
     ''    depends_on("'' @ spec_str sp (dep_spec d) @ ''", when="@'' @ version p @
     '':", type=("build", "run"))''\<close>

fun report ::
  "'spec spack \<Rightarrow> 'spec pkg \<Rightarrow> 'spec deps \<Rightarrow> 'spec deps \<Rightarrow> string list \<Rightarrow> string list" where
  "report sp p merged deps [] = []"
| "report sp p merged deps (dep # rest) =
     (if dep \<in> set (keys merged) then
        (if \<not> satisfies sp (dep_spec (the (map_of merged dep))) (dep_spec (the (map_of deps dep)))
         then [depends_on_line sp p (the (map_of deps dep))]
         else [])
      else [depends_on_line sp p (the (map_of deps dep))]) @
     report sp p merged deps rest"

definition reconcile ::
  "'spec spack \<Rightarrow> 'spec pkg \<Rightarrow> 'spec deps \<Rightarrow> 'spec deps \<Rightarrow> string list" where
  "reconcile sp p merged deps = report sp p merged deps (sort (keys deps))"

subsection \<open>\<^verbatim>\<open>RBuilder.install\<close>\<close>

text \<open>What the builder finds around it: \<open>pycran\<close> is \<^verbatim>\<open>pycran.parse\<close>, \<open>None\<close> when
  \<^verbatim>\<open>import pycran\<close> raises ImportError; \<open>description_file\<close> is the outcome of opening and
  reading \<^verbatim>\<open>DESCRIPTION\<close>; the rest are the values install reads from \<^verbatim>\<open>self\<close>.\<close>

record builder =
  pycran :: "(string \<Rightarrow> error + description list) option"
  description_file :: "error + string"
  configure_args :: "string list"
  configure_vars :: "string list"
  r_lib_dir :: string
  source_path :: string

text \<open>What install does to the outside: the exception it ends with, if any, the lines sent
  to \<^verbatim>\<open>tty.debug\<close>, and the argument lists \<^verbatim>\<open>R\<close> was invoked with.\<close>

record outcome =
  raised :: "error option"
  debug :: "string list"
  r_calls :: "string list list"

text \<open>\<^verbatim>\<open>sep.join(xs)\<close>.\<close>

fun join :: "string \<Rightarrow> string list \<Rightarrow> string" where
  "join sep [] = []"
| "join sep [x] = x"
| "join sep (x # y # ys) = x @ sep @ join sep (y # ys)"

text \<open>The body of the \<^verbatim>\<open>try\<close> block: the exception that leaves it, or the debug lines it
  prints. Nothing is printed before the comparison loop, and nothing in that loop raises.\<close>

definition verify_dependencies ::
  "builder \<Rightarrow> 'spec spack \<Rightarrow> 'spec pkg \<Rightarrow> 'spec \<Rightarrow> error + string list" where
  "verify_dependencies self sp p spec =
     (case pycran self of
        None \<Rightarrow> Inl ImportError
      | Some parse \<Rightarrow>
         (case description_file self of
            Inl e \<Rightarrow> Inl e
          | Inr content \<Rightarrow>
             (case parse content of
                Inl e \<Rightarrow> Inl e
              | Inr descs \<Rightarrow>
                 (case build_deps sp (pkg_name p) [] (collect_r_deps descs) of
                    Inl e \<Rightarrow> Inl e
                  | Inr deps \<Rightarrow>
                     (case merge_dependencies sp [] (spack_dependencies sp p spec) of
                        Inl e \<Rightarrow> Inl e
                      | Inr merged \<Rightarrow> Inr (reconcile sp p merged deps))))))"

definition install_args :: "builder \<Rightarrow> string list" where
  "install_args self =
     [''--vanilla'', ''CMD'', ''INSTALL''] @
     (if configure_args self \<noteq> []
      then [''--configure-args='' @ join '' '' (configure_args self)] else []) @
     (if configure_vars self \<noteq> []
      then [''--configure-vars='' @ join '' '' (configure_vars self)] else []) @
     [''--library='' @ r_lib_dir self, source_path self]"

definition install :: "builder \<Rightarrow> 'spec spack \<Rightarrow> 'spec pkg \<Rightarrow> 'spec \<Rightarrow> outcome" where
  "install self sp p spec =
     (case verify_dependencies self sp p spec of
        Inr printed \<Rightarrow> \<lparr>raised = None, debug = printed, r_calls = [install_args self]\<rparr>
      | Inl e \<Rightarrow>
         if e = ImportError
         then \<lparr>raised = None,
               debug = [''R package dependency verification requires pycran''],
               r_calls = [install_args self]\<rparr>
         else \<lparr>raised = Some e, debug = [], r_calls = []\<rparr>)"

section \<open>Auxiliary definitions for the statements\<close>

text \<open>Names for two locals of the loop body on a line that contains a colon: the candidate
  field name \<^verbatim>\<open>parts[0].strip()\<close> and the candidate value, the stripped rest of the line.\<close>

definition line_field :: "string \<Rightarrow> string" where
  "line_field line = strip (takeWhile (\<lambda>c. c \<noteq> CHR '':'') line)"

definition line_value :: "string \<Rightarrow> string" where
  "line_value line = strip (tl (dropWhile (\<lambda>c. c \<noteq> CHR '':'') line))"

text \<open>The loop invariant: \<^verbatim>\<open>fields\<close> holds exactly the keys of \<^verbatim>\<open>package\<close>.\<close>

definition pinv :: "pstate \<Rightarrow> bool" where
  "pinv st = (fieldset st = set (keys (package st)) \<and> distinct (keys (package st)))"

text \<open>The verdicts of the specification, in its words: \<^emph>\<open>missing\<close> when no merged host rule has
  the name, \<^emph>\<open>weaker\<close> when one has it and its spec does not satisfy the foreign one,
  \<^emph>\<open>satisfied\<close> otherwise; and the diagnostics the specification asks for: one line for a
  missing or weaker entry, none for a satisfied one.\<close>

datatype verdict = Missing | Weaker | Satisfied

definition verdict_of :: "'spec spack \<Rightarrow> 'spec deps \<Rightarrow> 'spec deps \<Rightarrow> string \<Rightarrow> verdict" where
  "verdict_of sp merged deps dep =
     (case map_of merged dep of
        None \<Rightarrow> Missing
      | Some host \<Rightarrow>
          if satisfies sp (dep_spec host) (dep_spec (the (map_of deps dep)))
          then Satisfied else Weaker)"

definition diagnostics ::
  "'spec spack \<Rightarrow> 'spec pkg \<Rightarrow> 'spec deps \<Rightarrow> 'spec deps \<Rightarrow> string \<Rightarrow> string list" where
  "diagnostics sp p merged deps dep =
     (case verdict_of sp merged deps dep of
        Satisfied \<Rightarrow> []
      | _ \<Rightarrow> [depends_on_line sp p (the (map_of deps dep))])"

text \<open>The normalized name of the specification, in its words: lower case, prefixed with
  \<^verbatim>\<open>r-\<close>, except that the name of the language itself stays \<^verbatim>\<open>r\<close>.\<close>

definition normalized_name :: "string \<Rightarrow> string" where
  "normalized_name name = (if lower name = ''r'' then ''r'' else ''r-'' @ lower name)"

text \<open>A \<^verbatim>\<open>for\<close> loop that drains a generator: the records, or the exception that ended it.\<close>

definition consume :: "description list \<times> error option \<Rightarrow> error + description list" where
  "consume g = (case g of (ys, None) \<Rightarrow> Inr ys | (ys, Some e) \<Rightarrow> Inl e)"

text \<open>An instance for concrete runs: a spec is its text and a lower bound (version 2.15 as 215), one spec
  satisfies another when its bound is at least the other's; \<^verbatim>\<open>parse_description\<close> stands in for
  \<^verbatim>\<open>pycran.parse\<close>, of which it is a port.\<close>

definition example_spack :: "(string \<times> nat) spack" where
  "example_spack =
     \<lparr>Spec = (\<lambda>t. Some (t, 0)),
      satisfies = (\<lambda>a b. snd b \<le> snd a),
      spec_str = fst,
      dep_eq_key = (\<lambda>d k. False),
      merge = (\<lambda>a b. Some a)\<rparr>"

definition example_dep :: "string \<Rightarrow> nat \<Rightarrow> (string \<times> nat) dependency" where
  "example_dep t lo = \<lparr>dep_pkg = ''r-foo'', dep_spec = (t, lo), depflag = {BUILD, RUN}\<rparr>"

definition example_pkg :: "(string \<times> nat) pkg" where
  "example_pkg = \<lparr>pkg_name = ''r-foo'', version = ''1.2'', dependencies = []\<rparr>"

definition example_builder :: builder where
  "example_builder =
     \<lparr>pycran = Some (\<lambda>t. consume (parse_description t)),
      description_file = Inr ''Imports: A, (x), B'',
      configure_args = [''--with-x'', ''--quiet''],
      configure_vars = [],
      r_lib_dir = ''/opt/rlib'',
      source_path = ''/tmp/src''\<rparr>"

section \<open>Properties of the parser\<close>

lemma parse_line_yield_nonempty:
  "parse_line st line = Inr (st', Some r) \<Longrightarrow> r \<noteq> []"
  by (auto simp: parse_line_def Let_def split: if_splits list.splits prod.splits)

lemma map_of_dict_set: "map_of (dict_set d k v) = (map_of d)(k \<mapsto> v)"
  by (induction d k v rule: dict_set.induct) auto

lemma dict_set_new: "k \<notin> set (keys d) \<Longrightarrow> dict_set d k v = d @ [(k, v)]"
  by (induction d k v rule: dict_set.induct) (auto simp: keys_def)

lemma dict_set_last:
  "k \<notin> set (keys d) \<Longrightarrow> dict_set (d @ [(k, v0)]) k v = d @ [(k, v)]"
  by (induction d) (auto simp: keys_def)

lemma keys_dict_set:
  "keys (dict_set d k v) = (if k \<in> set (keys d) then keys d else keys d @ [k])"
  by (induction d k v rule: dict_set.induct) (auto simp: keys_def)

lemma distinct_dict_set: "distinct (keys d) \<Longrightarrow> distinct (keys (dict_set d k v))"
  by (simp add: keys_dict_set)

lemma append_last_eq:
  assumes "distinct (keys pkg)" "pkg \<noteq> []"
  shows "append_last pkg fv = butlast pkg @ [(fst (last pkg), snd (last pkg) @ fv)]"
proof -
  obtain d k v where pkg: "pkg = d @ [(k, v)]"
    using assms(2) by (metis append_butlast_last_id surj_pair)
  with assms(1) have nk: "k \<notin> set (keys d)"
    by (auto simp: keys_def)
  then have "map_of d k = None"
    by (simp add: keys_def map_of_eq_None_iff)
  then have "map_of pkg k = Some v"
    by (simp add: pkg map_add_def)
  then show ?thesis
    using nk by (simp add: append_last_def pkg dict_set_last)
qed

lemma keys_append_last: "distinct (keys pkg) \<Longrightarrow> keys (append_last pkg fv) = keys pkg"
  by (cases "pkg = []") (simp_all add: append_last_def keys_dict_set Let_def, simp add: keys_def)

lemma pinv_init: "pinv init_pstate"
  by (simp add: pinv_def init_pstate_def keys_def)

lemma strip_idem: "strip (strip s) = strip s"
proof -
  define t where "t = dropWhile isspace s"
  define u where "u = rev (dropWhile isspace (rev t))"
  have su: "strip s = u" by (simp add: strip_def t_def u_def)
  have t: "t = [] \<or> \<not> isspace (hd t)"
    unfolding t_def by (metis hd_dropWhile)
  have "u @ rev (takeWhile isspace (rev t)) =
      rev (takeWhile isspace (rev t) @ dropWhile isspace (rev t))"
    by (simp only: u_def rev_append)
  also have "\<dots> = t" by simp
  finally have tu: "t = u @ rev (takeWhile isspace (rev t))" by simp
  have "u = [] \<or> \<not> isspace (hd u)"
  proof (cases "u = []")
    case True
    then show ?thesis by simp
  next
    case False
    then have "hd t = hd u" using tu by (metis hd_append2)
    moreover have "t \<noteq> []" using False tu by auto
    ultimately show ?thesis using t by simp
  qed
  then have du: "dropWhile isspace u = u"
    by (cases u) auto
  have "dropWhile isspace (rev u) = rev u"
    by (simp add: u_def dropWhile_idem)
  then have "strip u = u"
    by (simp add: strip_def du)
  then show ?thesis by (simp add: su)
qed

lemma parse_line_blank: "strip line = [] \<Longrightarrow> parse_line st line = Inr (st, None)"
  by (simp add: parse_line_def)

lemma parse_line_no_colon:
  "strip line \<noteq> [] \<Longrightarrow> CHR '':'' \<notin> set line \<Longrightarrow>
   parse_line st line =
     Inr (st\<lparr>package := append_last (package st) (CHR '' '' # strip line)\<rparr>, None)"
  by (simp add: parse_line_def)

lemma parse_line_colon:
  assumes "strip line \<noteq> []" "CHR '':'' \<in> set line"
  shows "parse_line st line =
     (case line_field line of
        [] \<Rightarrow> Inl IndexError
      | c # _ \<Rightarrow>
          if \<not> isalpha c then
            Inr (st\<lparr>package := append_last (package st) (CHR '' '' # strip line)\<rparr>, None)
          else if line_field line \<in> fieldset st then
            Inr (\<lparr>fieldset = {line_field line}, package = [(line_field line, line_value line)]\<rparr>,
                 if package st \<noteq> [] then Some (package st) else None)
          else
            Inr (\<lparr>fieldset = insert (line_field line) (fieldset st),
                  package = dict_set (package st) (line_field line) (line_value line)\<rparr>, None))"
  using assms
  by (simp add: parse_line_def split_max1_def line_field_def line_value_def strip_idem
      split: list.splits)

lemma parse_line_pinv:
  assumes inv: "pinv st" and step: "parse_line st line = Inr (st', y)"
  shows "pinv st'"
proof (cases "strip line = []")
  case True
  with step inv show ?thesis by (simp add: parse_line_blank)
next
  case nonblank: False
  have app: "\<And>fv. pinv (st\<lparr>package := append_last (package st) fv\<rparr>)"
    using inv by (simp add: pinv_def keys_append_last)
  show ?thesis
  proof (cases "CHR '':'' \<in> set line")
    case False
    with step nonblank app show ?thesis by (auto simp: parse_line_no_colon)
  next
    case True
    have one: "pinv \<lparr>fieldset = {line_field line}, package = [(line_field line, line_value line)]\<rparr>"
      by (simp add: pinv_def keys_def)
    have new: "pinv \<lparr>fieldset = insert (line_field line) (fieldset st),
                  package = dict_set (package st) (line_field line) (line_value line)\<rparr>"
      using inv by (auto simp: pinv_def keys_dict_set)
    from step show ?thesis
      unfolding parse_line_colon [OF nonblank True]
      using app one new by (auto split: list.splits if_splits)
  qed
qed

lemma parse_lines_pinv:
  "pinv st \<Longrightarrow> parse_lines st ls = (ys, Inr st') \<Longrightarrow> pinv st'"
proof (induction ls arbitrary: st ys)
  case Nil
  then show ?case by simp
next
  case (Cons l ls)
  then show ?case
    by (auto split: sum.splits prod.splits dest: parse_line_pinv)
qed

lemma parse_lines_append:
  "parse_lines st ls = (ys, Inr st') \<Longrightarrow>
   parse_lines st (ls @ ms) = (case parse_lines st' ms of (zs, r) \<Rightarrow> (ys @ zs, r))"
proof (induction ls arbitrary: st ys)
  case Nil
  then show ?case by (simp split: prod.splits)
next
  case (Cons l ls)
  then show ?case
    by (auto split: sum.splits prod.splits)
qed

lemma parse_lines_nonempty:
  "r \<in> set (fst (parse_lines st ls)) \<Longrightarrow> r \<noteq> []"
proof (induction ls arbitrary: st)
  case Nil
  then show ?case by simp
next
  case (Cons l ls)
  show ?case
  proof (cases "parse_line st l")
    case (Inl e)
    with Cons.prems show ?thesis by simp
  next
    case (Inr p)
    obtain st' y where p: "p = (st', y)" by (cases p)
    obtain zs res where rest: "parse_lines st' ls = (zs, res)" by (cases "parse_lines st' ls")
    from Cons.prems Inr p rest
    have "r \<in> set (case y of None \<Rightarrow> [] | Some rec \<Rightarrow> [rec]) \<or> r \<in> set zs"
      by auto
    then show ?thesis
    proof
      assume "r \<in> set (case y of None \<Rightarrow> [] | Some rec \<Rightarrow> [rec])"
      then have "y = Some r" by (cases y) auto
      with Inr p show ?thesis by (auto dest: parse_line_yield_nonempty)
    next
      assume "r \<in> set zs"
      with Cons.IH [of st'] rest show ?thesis by simp
    qed
  qed
qed

lemma parse_line_raises_iff:
  "(\<exists>e. parse_line st line = Inl e) \<longleftrightarrow>
     strip line \<noteq> [] \<and> CHR '':'' \<in> set line \<and> strip (takeWhile (\<lambda>c. c \<noteq> CHR '':'') line) = []"
proof (cases "strip line \<noteq> [] \<and> CHR '':'' \<in> set line")
  case True
  then show ?thesis
    by (auto simp: parse_line_colon line_field_def split: list.splits)
next
  case False
  then show ?thesis
    by (cases "strip line = []") (auto simp: parse_line_blank parse_line_no_colon)
qed

section \<open>Properties of the reconciler\<close>

lemma in_keys_iff: "k \<in> set (keys d) \<longleftrightarrow> map_of d k \<noteq> None"
  by (simp add: keys_def map_of_eq_None_iff)

lemma report_diagnostics:
  "report sp p merged deps ks = concat (map (diagnostics sp p merged deps) ks)"
proof (induction ks)
  case Nil
  then show ?case by simp
next
  case (Cons k ks)
  show ?case
  proof (cases "map_of merged k")
    case None
    then show ?thesis
      using Cons by (simp add: in_keys_iff diagnostics_def verdict_of_def)
  next
    case (Some host)
    then show ?thesis
      using Cons by (simp add: in_keys_iff diagnostics_def verdict_of_def)
  qed
qed

lemma length_concat_diagnostics:
  "length (concat (map (diagnostics sp p merged deps) ks)) =
   length (filter (\<lambda>dep. verdict_of sp merged deps dep \<noteq> Satisfied) ks)"
  by (induction ks) (auto simp: diagnostics_def split: verdict.splits)

lemma build_deps_append:
  "build_deps sp p d0 (xs @ ys) =
     (case build_deps sp p d0 xs of Inl e \<Rightarrow> Inl e | Inr d1 \<Rightarrow> build_deps sp p d1 ys)"
  by (induction xs arbitrary: d0) (auto split: sum.splits)

lemma build_deps_distinct:
  "build_deps sp p d0 xs = Inr deps \<Longrightarrow> distinct (keys d0) \<Longrightarrow> distinct (keys deps)"
proof (induction xs arbitrary: d0)
  case Nil
  then show ?case by simp
next
  case (Cons x xs)
  then show ?case
    by (auto split: sum.splits intro: distinct_dict_set)
qed

lemma normalize_dep_name:
  "normalize_dep sp p x = Inr (n, d) \<Longrightarrow> \<exists>t. dep_text x = Inr (n, t)"
  by (auto simp: normalize_dep_def split: sum.splits option.splits)

lemma build_deps_other_names:
  assumes "build_deps sp p d1 ys = Inr deps"
    and "\<forall>y\<in>set ys. \<forall>t. dep_text y \<noteq> Inr (n, t)"
  shows "map_of deps n = map_of d1 n"
  using assms
proof (induction ys arbitrary: d1)
  case Nil
  then show ?case by simp
next
  case (Cons y ys)
  from Cons.prems(1) obtain k d where nd: "normalize_dep sp p y = Inr (k, d)"
    and rest: "build_deps sp p (dict_set d1 k d) ys = Inr deps"
    by (auto split: sum.splits)
  from nd obtain t where "dep_text y = Inr (k, t)"
    using normalize_dep_name by blast
  with Cons.prems(2) have "k \<noteq> n" by auto
  moreover have "map_of deps n = map_of (dict_set d1 k d) n"
    using Cons.IH [OF rest] Cons.prems(2) by simp
  ultimately show ?case
    by (simp add: map_of_dict_set)
qed

lemma distinct_keys_filter:
  "distinct (keys d) \<Longrightarrow> map_of d n = Some v \<Longrightarrow> filter (\<lambda>kv. fst kv = n) d = [(n, v)]"
proof (induction d)
  case Nil
  then show ?case by simp
next
  case (Cons a d)
  obtain k w where a: "a = (k, w)" by (cases a)
  show ?case
  proof (cases "k = n")
    case True
    with Cons.prems a have "v = w" and "n \<notin> fst ` set d"
      by (auto simp: keys_def)
    then have "filter (\<lambda>kv. fst kv = n) d = []"
      by (auto simp: filter_empty_conv)
    with True a \<open>v = w\<close> show ?thesis by simp
  next
    case False
    with Cons a show ?thesis by (simp add: keys_def)
  qed
qed

lemma search_name_None: "search_name r_dep = None \<longleftrightarrow> r_dep = [] \<or> \<not> is_namechar (hd r_dep)"
  by (cases r_dep) (auto simp: search_name_def Let_def)

lemma dep_text_assertion:
  "dep_text r_dep = Inl e \<longleftrightarrow>
     (r_dep = [] \<or> \<not> is_namechar (hd r_dep)) \<and>
     e = AssertionError (''Unable to find package name in '' @ r_dep)"
  by (auto simp: dep_text_def Let_def search_name_None [symmetric] split: option.splits)

lemma normalize_dep_assertion:
  "(\<exists>m. normalize_dep sp p r_dep = Inl (AssertionError m)) \<longleftrightarrow>
     r_dep = [] \<or> \<not> is_namechar (hd r_dep)"
proof (cases "dep_text r_dep")
  case (Inl e)
  then show ?thesis
    using dep_text_assertion [of r_dep e] by (auto simp: normalize_dep_def)
next
  case (Inr r)
  then have "\<not> (r_dep = [] \<or> \<not> is_namechar (hd r_dep))"
    using dep_text_assertion [of r_dep] by (metis sum.distinct(1))
  moreover have "\<not> (\<exists>m. normalize_dep sp p r_dep = Inl (AssertionError m))"
    using Inr by (auto simp: normalize_dep_def split: prod.splits option.splits)
  ultimately show ?thesis by blast
qed

lemma build_deps_stops:
  assumes "\<forall>x\<in>set xs. \<exists>r. normalize_dep sp p x = Inr r"
    and "normalize_dep sp p bad = Inl e"
  shows "build_deps sp p d0 (xs @ bad # ys) = Inl e"
  using assms
proof (induction xs arbitrary: d0)
  case Nil
  then show ?case by simp
next
  case (Cons x xs)
  then obtain k d where "normalize_dep sp p x = Inr (k, d)" by fastforce
  with Cons show ?case by simp
qed

lemma ord_simps:
  "ord (CHR ''_'') = 95" "ord (CHR ''-'') = 45" "ord (CHR ''.'') = 46" "ord (CHR '' '') = 32"
  "ord (CHR ''('') = 40" "ord (CHR '')'') = 41" "ord (CHR ''='') = 61" "ord (CHR ''>'') = 62"
  "ord (CHR 0x0A) = 10" "ord (CHR ''@'') = 64" "ord (CHR '':'') = 58"
  by (simp_all add: ord_def)

lemma namechar_not_space: "is_namechar c \<Longrightarrow> \<not> isspace c"
  by (auto simp: is_namechar_def isalnum_def isalpha_def isdecimal_def isspace_def Let_def ord_simps)

lemma namechar_plain: "is_namechar c \<Longrightarrow> c \<noteq> CHR ''('' \<and> c \<noteq> CHR '' ''"
  by (auto simp: is_namechar_def isalnum_def isalpha_def isdecimal_def Let_def ord_simps)

lemma verchar_plain:
  "is_verchar c \<Longrightarrow> c \<noteq> CHR '')'' \<and> c \<noteq> CHR 0x0A \<and> c \<noteq> CHR ''='' \<and> c \<noteq> CHR ''>''"
  by (auto simp: is_verchar_def isdecimal_def Let_def ord_simps)

lemma strip_no_space: "\<forall>c\<in>set s. \<not> isspace c \<Longrightarrow> strip s = s"
proof -
  assume a: "\<forall>c\<in>set s. \<not> isspace c"
  then have 1: "dropWhile isspace s = s" by (cases s) auto
  have "rev s = [] \<or> \<not> isspace (hd (rev s))"
    using a by (cases "rev s") (auto simp: rev_eq_Cons_iff)
  then have "dropWhile isspace (rev s) = rev s"
    by (cases "rev s") auto
  with 1 show ?thesis by (simp add: strip_def)
qed

lemma search_name_run:
  assumes "name \<noteq> []" "\<forall>c\<in>set name. is_namechar c" "rest = [] \<or> \<not> is_namechar (hd rest)"
  shows "search_name (name @ rest) = Some name"
proof -
  have "takeWhile is_namechar (name @ rest) = name"
    using assms(2,3) by (cases rest) auto
  with assms(1) show ?thesis by (simp add: search_name_def)
qed

lemma search_parens_skip:
  "CHR ''('' \<notin> set pre \<Longrightarrow> search_parens (pre @ rest) = search_parens rest"
  by (induction pre) auto

lemma search_parens_none: "CHR ''('' \<notin> set s \<Longrightarrow> search_parens s = None"
  using search_parens_skip [of s "[]"] by simp

lemma search_parens_clause:
  assumes "CHR '')'' \<notin> set body" "CHR 0x0A \<notin> set body"
  shows "search_parens (CHR ''('' # body @ '')'') = Some body"
proof -
  have seg: "takeWhile (\<lambda>x. x \<noteq> CHR 0x0A) (body @ '')'') = body @ '')''"
    using assms(2) by (auto simp: takeWhile_eq_all_conv [THEN iffD2])
  have "dropWhile (\<lambda>x. x \<noteq> CHR '')'') (rev (body @ '')'')) = CHR '')'' # rev body"
    by simp
  then show ?thesis
    by (simp add: seg del: rev_append)
qed

lemma sub_version_no_match:
  assumes "op \<noteq> []" "hd op \<notin> set s"
  shows "sub_version op suffix s = s"
  using assms(2)
proof (induction s)
  case Nil
  then show ?case by simp
next
  case (Cons c cs)
  have "take (length op) (c # cs) \<noteq> op"
  proof
    assume "take (length op) (c # cs) = op"
    then have "hd op = c" using assms(1) by (cases op) auto
    with Cons.prems show False by simp
  qed
  then have "match_version op (c # cs) = None"
    by (simp add: match_version_def)
  with Cons show ?case by simp
qed

lemma sub_version_clause:
  assumes "ver \<noteq> []" "\<forall>c\<in>set ver. is_verchar c" "isspace w" "op \<noteq> []"
  shows "sub_version op suffix (op @ w # ver) = ''@'' @ ver @ suffix"
proof -
  obtain c cs where op: "op = c # cs" using assms(4) by (cases op) auto
  have tw: "takeWhile is_verchar ver = ver" "dropWhile is_verchar ver = []"
    using assms(2) by (simp_all add: takeWhile_eq_all_conv dropWhile_eq_Nil_conv)
  have "match_version op (op @ w # ver) = Some (ver, [])"
    using assms(1,3) by (simp add: match_version_def tw)
  then show ?thesis
    by (simp add: op)
qed

lemma dep_text_name:
  assumes "name \<noteq> []" "\<forall>c\<in>set name. is_namechar c" "rest = [] \<or> \<not> is_namechar (hd rest)"
  shows "dep_text (name @ rest) =
    (case search_parens rest of
       None \<Rightarrow> Inr (normalized_name name, normalized_name name)
     | Some v0 \<Rightarrow> Inr (normalized_name name,
         normalized_name name @ sub_version ''=='' [] (sub_version ''>='' '':'' v0)))"
proof -
  have "strip name = name"
    using assms(2) by (simp add: strip_no_space namechar_not_space)
  moreover have "search_parens (name @ rest) = search_parens rest"
    using assms(2) by (intro search_parens_skip) (auto dest: namechar_plain)
  ultimately show ?thesis
    by (simp add: dep_text_def search_name_run [OF assms] normalized_name_def Let_def
        split: option.splits)
qed

section \<open>Claims about the parser\<close>

text \<open>Claim C10. Every record the parser yields has at least one field, whatever the input
  text: the boundary yield and the final yield are both guarded on a non-empty record. The
  records yielded before an exception are included.\<close>

theorem yielded_records_nonempty:
  "\<forall>r \<in> set (fst (parse_description data)). r \<noteq> []"
proof
  fix r
  assume r: "r \<in> set (fst (parse_description data))"
  obtain ys res where pl: "parse_lines init_pstate (splitlines data) = (ys, res)"
    by (cases "parse_lines init_pstate (splitlines data)")
  have ys: "\<And>x. x \<in> set ys \<Longrightarrow> x \<noteq> []"
    using parse_lines_nonempty [of _ init_pstate "splitlines data"] pl by simp
  show "r \<noteq> []"
    using r ys by (cases res) (auto simp: parse_description_def pl split: if_splits)
qed

theorem yielded_records_nonempty_witness:
  "fst (parse_description (''A: 1'' @ [CHR 0x0A] @ ''A: 2'')) = [[(''A'', ''1'')], [(''A'', ''2'')]] \<and>
   [] \<notin> set (fst (parse_description (''A: 1'' @ [CHR 0x0A] @ ''A: 2'')))"
proof -
  have "fst (parse_description (''A: 1'' @ [CHR 0x0A] @ ''A: 2'')) = [[(''A'', ''1'')], [(''A'', ''2'')]]"
    by code_simp
  then show ?thesis
    using yielded_records_nonempty [of "''A: 1'' @ [CHR 0x0A] @ ''A: 2''"] by auto
qed

text \<open>Claim C3. In a state the parser reaches, a field line whose name is already a key of the
  record in progress yields that record and starts a new one holding the repeated field
  alone, the seen-set being that field alone. Two consecutive lines with the same field
  name: the record yielded between them ends with the first occurrence, after the fields
  that were there before it, and the record in progress afterwards holds the second
  occurrence alone.\<close>

theorem record_boundary_on_repeated_field:
  assumes reach: "parse_lines init_pstate ls = (ys, Inr st)"
    and line: "strip line \<noteq> []" "CHR '':'' \<in> set line"
      "line_field line \<noteq> []" "isalpha (hd (line_field line))"
    and line': "strip line' \<noteq> []" "CHR '':'' \<in> set line'"
      "line_field line' = line_field line"
  shows "(line_field line \<in> set (keys (package st)) \<longrightarrow>
           parse_line st line =
             Inr (\<lparr>fieldset = {line_field line},
                   package = [(line_field line, line_value line)]\<rparr>, Some (package st)) \<and>
           parse_lines init_pstate (ls @ [line]) =
             (ys @ [package st],
              Inr \<lparr>fieldset = {line_field line},
                    package = [(line_field line, line_value line)]\<rparr>)) \<and>
         parse_lines st [line, line'] =
           (if line_field line \<in> set (keys (package st))
            then [package st, [(line_field line, line_value line)]]
            else [package st @ [(line_field line, line_value line)]],
            Inr \<lparr>fieldset = {line_field line},
                  package = [(line_field line, line_value line')]\<rparr>)"
proof -
  let ?f = "line_field line"
  have inv: "pinv st"
    using parse_lines_pinv [OF pinv_init reach] .
  then have fs: "fieldset st = set (keys (package st))" and dist: "distinct (keys (package st))"
    by (simp_all add: pinv_def)
  obtain c cs where f: "?f = c # cs" and alpha: "isalpha c"
    using line(3,4) by (cases ?f) auto
  have step: "parse_line st line =
      (if ?f \<in> set (keys (package st)) then
         Inr (\<lparr>fieldset = {?f}, package = [(?f, line_value line)]\<rparr>,
              if package st \<noteq> [] then Some (package st) else None)
       else
         Inr (\<lparr>fieldset = insert ?f (fieldset st),
               package = dict_set (package st) ?f (line_value line)\<rparr>, None))"
    by (simp add: parse_line_colon [OF line(1,2)] f alpha fs [symmetric])
  have step': "\<And>st'. ?f \<in> fieldset st' \<Longrightarrow> package st' \<noteq> [] \<Longrightarrow> parse_line st' line' =
         Inr (\<lparr>fieldset = {?f}, package = [(?f, line_value line')]\<rparr>, Some (package st'))"
    by (simp add: parse_line_colon [OF line'(1,2)] line'(3) f alpha)
  have ne: "?f \<in> set (keys (package st)) \<Longrightarrow> package st \<noteq> []"
    by (auto simp: keys_def)
  have a: "?f \<in> set (keys (package st)) \<longrightarrow>
           parse_line st line =
             Inr (\<lparr>fieldset = {?f}, package = [(?f, line_value line)]\<rparr>, Some (package st)) \<and>
           parse_lines init_pstate (ls @ [line]) =
             (ys @ [package st], Inr \<lparr>fieldset = {?f}, package = [(?f, line_value line)]\<rparr>)"
    using ne by (simp add: step parse_lines_append [OF reach])
  have b: "parse_lines st [line, line'] =
           (if ?f \<in> set (keys (package st))
            then [package st, [(?f, line_value line)]]
            else [package st @ [(?f, line_value line)]],
            Inr \<lparr>fieldset = {?f}, package = [(?f, line_value line')]\<rparr>)"
  proof (cases "?f \<in> set (keys (package st))")
    case True
    then show ?thesis
      using ne by (simp add: step step')
  next
    case False
    then show ?thesis
      by (simp add: step step' dict_set_new)
  qed
  from a b show ?thesis by blast
qed

theorem record_boundary_on_repeated_field_witness:
  "parse_lines init_pstate [''A: 1'', ''B: 2'', ''B: 3''] =
     ([[(''A'', ''1''), (''B'', ''2'')]], Inr \<lparr>fieldset = {''B''}, package = [(''B'', ''3'')]\<rparr>) \<and>
   parse_lines \<lparr>fieldset = {''A''}, package = [(''A'', ''1'')]\<rparr> [''B: 2'', ''B: 3''] =
     ([[(''A'', ''1''), (''B'', ''2'')]], Inr \<lparr>fieldset = {''B''}, package = [(''B'', ''3'')]\<rparr>)"
proof -
  have e: "parse_lines init_pstate [''A: 1''] = ([], Inr \<lparr>fieldset = {''A''}, package = [(''A'', ''1'')]\<rparr>)"
    "parse_lines init_pstate [''A: 1'', ''B: 2''] =
       ([], Inr \<lparr>fieldset = {''A'', ''B''}, package = [(''A'', ''1''), (''B'', ''2'')]\<rparr>)"
    by (simp_all add: init_pstate_def parse_line_def strip_def isspace_def ord_def
        split_max1_def isalpha_def Let_def insert_commute)
  have l: "strip ''B: 2'' \<noteq> []" "CHR '':'' \<in> set ''B: 2''" "line_field ''B: 2'' = ''B''"
    "line_value ''B: 2'' = ''2''" "isalpha (CHR ''B'')"
    "strip ''B: 3'' \<noteq> []" "CHR '':'' \<in> set ''B: 3''" "line_field ''B: 3'' = ''B''"
    "line_value ''B: 3'' = ''3''"
    by (simp_all add: strip_def isspace_def ord_def line_field_def line_value_def isalpha_def)
  show ?thesis
    using record_boundary_on_repeated_field [OF e(1), of "''B: 2''" "''B: 3''"]
      record_boundary_on_repeated_field [OF e(2), of "''B: 3''" "''B: 3''"]
    by (simp add: l keys_def)
qed

text \<open>Continuation lines that the loop body classifies without raising. In a state the
  parser reaches, a non-blank line that has no colon, or whose candidate field name has a
  first character that is not alphabetic, is appended, trimmed and after exactly one
  space, to the value of the last field of the record in progress (the field inserted most
  recently); nothing is yielded, and nothing changes when the record is empty. The text
  \<^verbatim>\<open>Imports: A,\<close> followed by the indented line \<^verbatim>\<open>B (>= 1.0)\<close> gives one record whose
  \<^verbatim>\<open>Imports\<close> is \<^verbatim>\<open>A, B (>= 1.0)\<close>.\<close>

lemma continuation_line_appends:
  assumes reach: "parse_lines init_pstate ls = (ys, Inr st)"
    and nonblank: "strip line \<noteq> []"
    and cont: "CHR '':'' \<notin> set line \<or>
               (line_field line \<noteq> [] \<and> \<not> isalpha (hd (line_field line)))"
  shows "parse_line st line =
           Inr (st\<lparr>package :=
                  (if package st = [] then []
                   else butlast (package st) @
                        [(fst (last (package st)),
                          snd (last (package st)) @ '' '' @ strip line)])\<rparr>, None) \<and>
         parse_description (''Imports: A,'' @ [CHR 0x0A] @ ''    B (>= 1.0)'') =
           ([[(''Imports'', ''A, B (>= 1.0)'')]], None)"
proof -
  have inv: "pinv st"
    using parse_lines_pinv [OF pinv_init reach] .
  then have dist: "distinct (keys (package st))"
    by (simp add: pinv_def)
  have step: "parse_line st line =
      Inr (st\<lparr>package := append_last (package st) (CHR '' '' # strip line)\<rparr>, None)"
  proof (cases "CHR '':'' \<in> set line")
    case False
    then show ?thesis by (simp add: parse_line_no_colon [OF nonblank])
  next
    case True
    with cont obtain c cs where "line_field line = c # cs" "\<not> isalpha c"
      by (cases "line_field line") auto
    then show ?thesis
      by (simp add: parse_line_colon [OF nonblank True])
  qed
  have app: "append_last (package st) (CHR '' '' # strip line) =
       (if package st = [] then []
        else butlast (package st) @
             [(fst (last (package st)), snd (last (package st)) @ '' '' @ strip line)])"
    using append_last_eq [OF dist] by (simp add: append_last_def)
  have ex: "parse_description (''Imports: A,'' @ [CHR 0x0A] @ ''    B (>= 1.0)'') =
           ([[(''Imports'', ''A, B (>= 1.0)'')]], None)"
    by code_simp
  show ?thesis
    using step app ex by simp
qed

lemma continuation_line_appends_example:
  "parse_line \<lparr>fieldset = {''Imports''}, package = [(''Imports'', ''A,'')]\<rparr> ''    B (>= 1.0)'' =
     Inr (\<lparr>fieldset = {''Imports''}, package = [(''Imports'', ''A, B (>= 1.0)'')]\<rparr>, None) \<and>
   parse_line \<lparr>fieldset = {''Imports''}, package = [(''Imports'', ''A,'')]\<rparr> ''  1:2 C'' =
     Inr (\<lparr>fieldset = {''Imports''}, package = [(''Imports'', ''A, 1:2 C'')]\<rparr>, None)"
proof -
  have e: "parse_lines init_pstate [''Imports: A,''] =
      ([], Inr \<lparr>fieldset = {''Imports''}, package = [(''Imports'', ''A,'')]\<rparr>)"
    by (simp add: init_pstate_def parse_line_def strip_def isspace_def ord_def
        split_max1_def isalpha_def Let_def)
  have l: "strip ''    B (>= 1.0)'' = ''B (>= 1.0)''" "CHR '':'' \<notin> set ''    B (>= 1.0)''"
    "strip ''  1:2 C'' = ''1:2 C''" "line_field ''  1:2 C'' = ''1''" "\<not> isalpha (CHR ''1'')"
    by (simp_all add: strip_def isspace_def ord_def line_field_def isalpha_def)
  show ?thesis
    using continuation_line_appends [OF e, of "''    B (>= 1.0)''"]
      continuation_line_appends [OF e, of "''  1:2 C''"]
    by (simp add: l)
qed

text \<open>Claim C8, which the code does not meet. A colon line whose candidate field name is
  empty is a continuation line too, and is to be appended like the others. After the line
  \<^verbatim>\<open>Imports: A,\<close> the record in progress holds \<^verbatim>\<open>Imports\<close>; on the indented line
  \<^verbatim>\<open>: B (>= 1.0)\<close> the loop body raises IndexError at \<^verbatim>\<open>field[0]\<close> instead of appending, and the
  generator ends without yielding the record.\<close>

theorem continuation_with_empty_name_raises:
  "parse_lines init_pstate [''Imports: A,''] =
     ([], Inr \<lparr>fieldset = {''Imports''}, package = [(''Imports'', ''A,'')]\<rparr>) \<and>
   parse_line \<lparr>fieldset = {''Imports''}, package = [(''Imports'', ''A,'')]\<rparr>
     ''    : B (>= 1.0)'' = Inl IndexError \<and>
   parse_description (''Imports: A,'' @ [CHR 0x0A] @ ''    : B (>= 1.0)'') =
     ([], Some IndexError)"
proof -
  have "parse_description (''Imports: A,'' @ [CHR 0x0A] @ ''    : B (>= 1.0)'') =
     ([], Some IndexError)"
    by code_simp
  then show ?thesis
    by (simp add: init_pstate_def parse_line_def strip_def isspace_def ord_def
        split_max1_def isalpha_def Let_def)
qed

text \<open>Claim C4, which the code does not meet. On a line with a colon and nothing but
  whitespace before it, \<^verbatim>\<open>field[0]\<close> raises IndexError. Here the second line is \<^verbatim>\<open>: b\<close>; the
  generator raises before it has yielded the record in progress.\<close>

theorem empty_field_name_raises:
  "parse_description (''Package: a'' @ [CHR 0x0A] @ '': b'') = ([], Some IndexError)"
  by code_simp

section \<open>Claims about the reconciler and install\<close>

text \<open>Claim C1. For any foreign dependencies and any merged host rules, the comparison loop
  visits the foreign names in sorted order and prints, for each, what its verdict asks for:
  one line when the name is missing from the host rules or the host spec does not satisfy
  the foreign one, nothing when it is satisfied. The number of lines printed is the number
  of names whose verdict is not \<^emph>\<open>satisfied\<close>.\<close>

theorem reconcile_verdicts:
  "reconcile sp p merged deps =
     concat (map (diagnostics sp p merged deps) (sort (keys deps))) \<and>
   sorted (sort (keys deps)) \<and> set (sort (keys deps)) = set (keys deps) \<and>
   length (sort (keys deps)) = length (keys deps) \<and>
   length (reconcile sp p merged deps) =
     length (filter (\<lambda>dep. verdict_of sp merged deps dep \<noteq> Satisfied) (keys deps)) \<and>
   (verdict_of sp merged deps dep = Missing \<longleftrightarrow> dep \<notin> set (keys merged)) \<and>
   (verdict_of sp merged deps dep = Weaker \<longleftrightarrow>
      dep \<in> set (keys merged) \<and>
      \<not> satisfies sp (dep_spec (the (map_of merged dep))) (dep_spec (the (map_of deps dep)))) \<and>
   (diagnostics sp p merged deps dep =
      (if verdict_of sp merged deps dep = Satisfied then []
       else [depends_on_line sp p (the (map_of deps dep))]))"
proof -
  have r: "reconcile sp p merged deps =
     concat (map (diagnostics sp p merged deps) (sort (keys deps)))"
    by (simp add: reconcile_def report_diagnostics)
  have "length (filter (\<lambda>dep. verdict_of sp merged deps dep \<noteq> Satisfied) (sort (keys deps))) =
        length (filter (\<lambda>dep. verdict_of sp merged deps dep \<noteq> Satisfied) (keys deps))"
    by (simp add: filter_sort)
  then have n: "length (reconcile sp p merged deps) =
     length (filter (\<lambda>dep. verdict_of sp merged deps dep \<noteq> Satisfied) (keys deps))"
    by (simp add: r length_concat_diagnostics)
  have m: "verdict_of sp merged deps dep = Missing \<longleftrightarrow> dep \<notin> set (keys merged)"
    by (auto simp: verdict_of_def in_keys_iff split: option.splits)
  have w: "verdict_of sp merged deps dep = Weaker \<longleftrightarrow>
      dep \<in> set (keys merged) \<and>
      \<not> satisfies sp (dep_spec (the (map_of merged dep))) (dep_spec (the (map_of deps dep)))"
    by (auto simp: verdict_of_def in_keys_iff split: option.splits)
  have d: "diagnostics sp p merged deps dep =
      (if verdict_of sp merged deps dep = Satisfied then []
       else [depends_on_line sp p (the (map_of deps dep))])"
    by (simp add: diagnostics_def split: verdict.splits)
  show ?thesis
    using r n m w d by simp
qed

theorem reconcile_verdicts_witness:
  \<open>reconcile example_spack example_pkg
     [(''r'', example_dep ''r@3.0:'' 300), (''r-xtable'', example_dep ''r-xtable@1.0:'' 100)]
     [(''r-xtable'', example_dep ''r-xtable@2.0:'' 200), (''r-zoo'', example_dep ''r-zoo'' 0),
      (''r'', example_dep ''r@2.15.0:'' 215)] =
   [''    depends_on("r-xtable@2.0:", when="@1.2:", type=("build", "run"))'',
    ''    depends_on("r-zoo", when="@1.2:", type=("build", "run"))''] \<and>
   reconcile example_spack example_pkg
     [(''r'', example_dep ''r@3.0:'' 300), (''r-xtable'', example_dep ''r-xtable@2.5:'' 250)]
     [(''r-xtable'', example_dep ''r-xtable@2.0:'' 200), (''r-zoo'', example_dep ''r-zoo'' 0),
      (''r'', example_dep ''r@2.15.0:'' 215)] =
   [''    depends_on("r-zoo", when="@1.2:", type=("build", "run"))'']\<close>
proof -
  have s: "sort [''r-xtable'', ''r-zoo'', ''r''] = [''r'', ''r-xtable'', ''r-zoo'']"
    by simp
  show ?thesis
    using reconcile_verdicts [of example_spack example_pkg
        "[(''r'', example_dep ''r@3.0:'' 300), (''r-xtable'', example_dep ''r-xtable@1.0:'' 100)]"
        "[(''r-xtable'', example_dep ''r-xtable@2.0:'' 200), (''r-zoo'', example_dep ''r-zoo'' 0),
          (''r'', example_dep ''r@2.15.0:'' 215)]"]
      reconcile_verdicts [of example_spack example_pkg
        "[(''r'', example_dep ''r@3.0:'' 300), (''r-xtable'', example_dep ''r-xtable@2.5:'' 250)]"
        "[(''r-xtable'', example_dep ''r-xtable@2.0:'' 200), (''r-zoo'', example_dep ''r-zoo'' 0),
          (''r'', example_dep ''r@2.15.0:'' 215)]"]
    by (simp add: keys_def s diagnostics_def verdict_of_def example_spack_def example_dep_def example_pkg_def
        depends_on_line_def)
qed

text \<open>Claim C2. A specifier that starts with a name (a run of name characters that ends the
  text or is followed by another character) normalizes to the lower-cased name prefixed
  with \<^verbatim>\<open>r-\<close>, and to \<^verbatim>\<open>r\<close> for the name \<^verbatim>\<open>R\<close>; the clause \<^verbatim>\<open>(>= v)\<close> gives the spec text
  \<^verbatim>\<open>name@v:\<close>, the clause \<^verbatim>\<open>(== v)\<close> gives \<^verbatim>\<open>name@v\<close>, and with no parenthesis the spec text
  is the name alone. The three specifiers of the specification normalize as it says.\<close>

theorem specifier_normalization:
  assumes name: "name \<noteq> []" "\<forall>c\<in>set name. is_namechar c"
    and ver: "ver \<noteq> []" "\<forall>c\<in>set ver. is_verchar c"
    and rest: "rest = [] \<or> \<not> is_namechar (hd rest)" "CHR ''('' \<notin> set rest"
  shows "dep_text (name @ '' (>= '' @ ver @ '')'') =
           Inr (normalized_name name, normalized_name name @ ''@'' @ ver @ '':'') \<and>
         dep_text (name @ '' (== '' @ ver @ '')'') =
           Inr (normalized_name name, normalized_name name @ ''@'' @ ver) \<and>
         dep_text (name @ rest) = Inr (normalized_name name, normalized_name name) \<and>
         normalized_name ''R'' = ''r'' \<and>
         dep_text ''R (>= 2.15.0)'' = Inr (''r'', ''r@2.15.0:'') \<and>
         dep_text ''xtable'' = Inr (''r-xtable'', ''r-xtable'') \<and>
         dep_text ''dplyr (== 1.1.0)'' = Inr (''r-dplyr'', ''r-dplyr@1.1.0'')"
proof -
  have plain: "CHR '')'' \<notin> set ver" "CHR 0x0A \<notin> set ver" "CHR ''='' \<notin> set ver"
    "CHR ''>'' \<notin> set ver"
    using ver(2) by (auto dest: verchar_plain)
  have sp: "isspace (CHR '' '')"
    by (simp add: isspace_def ord_simps)
  have hd_ge: "'' (>= '' @ ver @ '')'' = [] \<or> \<not> is_namechar (hd ('' (>= '' @ ver @ '')''))"
    and hd_eq: "'' (== '' @ ver @ '')'' = [] \<or> \<not> is_namechar (hd ('' (== '' @ ver @ '')''))"
    by (simp_all add: is_namechar_def isalnum_def isalpha_def isdecimal_def ord_simps Let_def)
  have ge_parens: "search_parens ('' (>= '' @ ver @ '')'') = Some (''>= '' @ ver)"
    using search_parens_skip [of "'' ''" "CHR ''('' # (''>= '' @ ver) @ '')''"]
      search_parens_clause [of "''>= '' @ ver"] plain by simp
  have eq_parens: "search_parens ('' (== '' @ ver @ '')'') = Some (''== '' @ ver)"
    using search_parens_skip [of "'' ''" "CHR ''('' # (''== '' @ ver) @ '')''"]
      search_parens_clause [of "''== '' @ ver"] plain by simp
  have ge1: "sub_version ''>='' '':'' (''>= '' @ ver) = ''@'' @ ver @ '':''"
    using sub_version_clause [OF ver sp, of "''>=''" "'':''"] by simp
  have ge2: "sub_version ''=='' [] (''@'' @ ver @ '':'') = ''@'' @ ver @ '':''"
    using plain by (intro sub_version_no_match) auto
  have eq1: "sub_version ''>='' '':'' (''== '' @ ver) = ''== '' @ ver"
    using plain by (intro sub_version_no_match) auto
  have eq2: "sub_version ''=='' [] (''== '' @ ver) = ''@'' @ ver"
    using sub_version_clause [OF ver sp, of "''==''" "[]"] by simp
  have a: "dep_text (name @ '' (>= '' @ ver @ '')'') =
           Inr (normalized_name name, normalized_name name @ ''@'' @ ver @ '':'')"
    using dep_text_name [OF name hd_ge]
    by (simp only: ge_parens option.case ge1 ge2)
  have b: "dep_text (name @ '' (== '' @ ver @ '')'') =
           Inr (normalized_name name, normalized_name name @ ''@'' @ ver)"
    using dep_text_name [OF name hd_eq]
    by (simp only: eq_parens option.case eq1 eq2)
  have c: "dep_text (name @ rest) = Inr (normalized_name name, normalized_name name)"
    using dep_text_name [OF name rest(1)] by (simp add: search_parens_none [OF rest(2)])
  have d: "normalized_name ''R'' = ''r''"
    by code_simp
  have e: "dep_text ''R (>= 2.15.0)'' = Inr (''r'', ''r@2.15.0:'')"
    "dep_text ''xtable'' = Inr (''r-xtable'', ''r-xtable'')"
    "dep_text ''dplyr (== 1.1.0)'' = Inr (''r-dplyr'', ''r-dplyr@1.1.0'')"
    by code_simp+
  show ?thesis
    using a b c d e by simp
qed

theorem specifier_normalization_witness:
  "dep_text ''Rcpp (>= 0.11.0)'' = Inr (''r-rcpp'', ''r-rcpp@0.11.0:'') \<and>
   dep_text ''Rcpp (== 0.11.0)'' = Inr (''r-rcpp'', ''r-rcpp@0.11.0'') \<and>
   dep_text ''Rcpp [any]'' = Inr (''r-rcpp'', ''r-rcpp'')"
proof -
  have h: "''Rcpp'' \<noteq> []" "\<forall>c\<in>set ''Rcpp''. is_namechar c"
    "''0.11.0'' \<noteq> []" "\<forall>c\<in>set ''0.11.0''. is_verchar c"
    "'' [any]'' = [] \<or> \<not> is_namechar (hd '' [any]'')" "CHR ''('' \<notin> set '' [any]''"
    by (simp_all add: is_namechar_def is_verchar_def isalnum_def isalpha_def isdecimal_def
        ord_def Let_def)
  have n: "normalized_name ''Rcpp'' = ''r-rcpp''"
    by code_simp
  show ?thesis
    using specifier_normalization [OF h] by (simp add: n)
qed

text \<open>Claim C5, which the code does not meet. The test for an empty fragment comes before
  the fragment is stripped: of the value \<^verbatim>\<open>A, ,B\<close> the fragment of one space is kept and
  becomes the empty specifier, which reaches name extraction, fails the assertion there
  and ends install.\<close>

theorem blank_fragment_reaches_name_extraction:
  "dep_list ''A, ,B'' = [''A'', [], ''B''] \<and>
   collect_r_deps [[(''Imports'', ''A, ,B'')]] = [''A'', [], ''B''] \<and>
   dep_text [] = Inl (AssertionError ''Unable to find package name in '') \<and>
   install (example_builder\<lparr>description_file := Inr ''Imports: A, ,B''\<rparr>)
       example_spack example_pkg ([], 0) =
     \<lparr>raised = Some (AssertionError ''Unable to find package name in ''),
      debug = [], r_calls = []\<rparr>"
  by code_simp

text \<open>Claim C6. Normalizing a specifier raises the assertion exactly when the specifier does
  not start with a name character (a letter, a digit, an underscore or a dash). When the
  specifiers before it normalize, install ends with that assertion: nothing is printed and
  \<^verbatim>\<open>R\<close> is not invoked.\<close>

theorem name_assertion_aborts_install:
  "((\<exists>m. normalize_dep sp (pkg_name p) r_dep = Inl (AssertionError m)) \<longleftrightarrow>
      r_dep = [] \<or> \<not> is_namechar (hd r_dep)) \<and>
   (pycran self = Some parse \<and> description_file self = Inr content \<and>
    parse content = Inr descs \<and> collect_r_deps descs = xs @ r_dep # ys \<and>
    (\<forall>x\<in>set xs. \<exists>r. normalize_dep sp (pkg_name p) x = Inr r) \<and>
    (r_dep = [] \<or> \<not> is_namechar (hd r_dep)) \<longrightarrow>
    install self sp p spec =
      \<lparr>raised = Some (AssertionError (''Unable to find package name in '' @ r_dep)),
       debug = [], r_calls = []\<rparr>)"
proof -
  have a: "(\<exists>m. normalize_dep sp (pkg_name p) r_dep = Inl (AssertionError m)) \<longleftrightarrow>
      r_dep = [] \<or> \<not> is_namechar (hd r_dep)"
    by (rule normalize_dep_assertion)
  have b: "install self sp p spec =
      \<lparr>raised = Some (AssertionError (''Unable to find package name in '' @ r_dep)),
       debug = [], r_calls = []\<rparr>"
    if env: "pycran self = Some parse" "description_file self = Inr content"
      "parse content = Inr descs" "collect_r_deps descs = xs @ r_dep # ys"
      and ok: "\<forall>x\<in>set xs. \<exists>r. normalize_dep sp (pkg_name p) x = Inr r"
      and bad: "r_dep = [] \<or> \<not> is_namechar (hd r_dep)"
  proof -
    have "dep_text r_dep = Inl (AssertionError (''Unable to find package name in '' @ r_dep))"
      using bad by (simp add: dep_text_assertion)
    then have "normalize_dep sp (pkg_name p) r_dep =
        Inl (AssertionError (''Unable to find package name in '' @ r_dep))"
      by (simp add: normalize_dep_def)
    then have "build_deps sp (pkg_name p) [] (xs @ r_dep # ys) =
        Inl (AssertionError (''Unable to find package name in '' @ r_dep))"
      using build_deps_stops [OF ok] by simp
    then show ?thesis
      by (simp add: install_def verify_dependencies_def env)
  qed
  from a b show ?thesis by blast
qed

theorem name_assertion_aborts_install_witness:
  "normalize_dep example_spack ''r-foo'' ''(x)'' =
     Inl (AssertionError ''Unable to find package name in (x)'') \<and>
   install example_builder example_spack example_pkg ('''', 0) =
     \<lparr>raised = Some (AssertionError ''Unable to find package name in (x)''),
      debug = [], r_calls = []\<rparr>"
proof -
  have c: "consume (parse_description ''Imports: A, (x), B'') = Inr [[(''Imports'', ''A, (x), B'')]]"
    "collect_r_deps [[(''Imports'', ''A, (x), B'')]] = [''A''] @ ''(x)'' # [''B'']"
    "dep_text ''A'' = Inr (''r-a'', ''r-a'')"
    "dep_text ''(x)'' = Inl (AssertionError ''Unable to find package name in (x)'')"
    "\<not> is_namechar (CHR ''('')"
    "dep_list ''A, (x), B'' = [''A'', ''(x)'', ''B'']"
    by code_simp+
  have n: "normalize_dep example_spack ''r-foo'' ''(x)'' =
     Inl (AssertionError ''Unable to find package name in (x)'')"
    by (simp add: normalize_dep_def c)
  have ok: "\<forall>x\<in>set [''A'']. \<exists>r. normalize_dep example_spack (pkg_name example_pkg) x = Inr r"
    by (simp add: normalize_dep_def c example_spack_def)
  show ?thesis
    using name_assertion_aborts_install [of example_spack example_pkg "''(x)''" example_builder
        "\<lambda>t. consume (parse_description t)" "''Imports: A, (x), B''"
        "[[(''Imports'', ''A, (x), B'')]]" "[''A'']" "[''B'']" "('''', 0)"]
      ok n
    by (simp add: c example_builder_def)
qed

text \<open>Claim C7. When \<^verbatim>\<open>import pycran\<close> fails, install raises nothing, prints the one debug line
  and invokes \<^verbatim>\<open>R\<close> once, with the configure arguments and variables of the builder (each
  only when non-empty) before the library directory and the source path.\<close>

theorem missing_pycran_skips_verification:
  assumes "pycran self = None"
  shows "install self sp p spec =
           \<lparr>raised = None,
            debug = [''R package dependency verification requires pycran''],
            r_calls =
              [[''--vanilla'', ''CMD'', ''INSTALL''] @
               (if configure_args self \<noteq> []
                then [''--configure-args='' @ join '' '' (configure_args self)] else []) @
               (if configure_vars self \<noteq> []
                then [''--configure-vars='' @ join '' '' (configure_vars self)] else []) @
               [''--library='' @ r_lib_dir self, source_path self]]\<rparr>"
  using assms by (simp add: install_def verify_dependencies_def install_args_def)

theorem missing_pycran_skips_verification_witness:
  "install (example_builder\<lparr>pycran := None\<rparr>) example_spack example_pkg ('''', 0) =
     \<lparr>raised = None,
      debug = [''R package dependency verification requires pycran''],
      r_calls = [[''--vanilla'', ''CMD'', ''INSTALL'', ''--configure-args=--with-x --quiet'',
                  ''--library=/opt/rlib'', ''/tmp/src'']]\<rparr>"
  using missing_pycran_skips_verification [of "example_builder\<lparr>pycran := None\<rparr>" example_spack example_pkg "('''', 0)"]
  by (simp add: example_builder_def)

text \<open>Claim C9. When the loop over the specifiers ends without an exception, the entry of a
  normalized name is the dependency built from the last specifier with that name, and it
  is the only entry with that name.\<close>

theorem last_specifier_wins:
  assumes built: "build_deps sp p [] (xs @ x # ys) = Inr deps"
    and last: "normalize_dep sp p x = Inr (n, d)"
    and later: "\<forall>y\<in>set ys. \<forall>t. dep_text y \<noteq> Inr (n, t)"
  shows "map_of deps n = Some d \<and> filter (\<lambda>kv. fst kv = n) deps = [(n, d)]"
proof -
  from built obtain d1 where d1: "build_deps sp p [] xs = Inr d1"
    and rest: "build_deps sp p (dict_set d1 n d) ys = Inr deps"
    using last by (auto simp: build_deps_append split: sum.splits)
  have "map_of deps n = map_of (dict_set d1 n d) n"
    using build_deps_other_names [OF rest later] .
  then have m: "map_of deps n = Some d"
    by (simp add: map_of_dict_set)
  have "distinct (keys deps)"
    using build_deps_distinct [OF built] by (simp add: keys_def)
  then show ?thesis
    using m by (simp add: distinct_keys_filter)
qed

theorem last_specifier_wins_witness:
  "build_deps example_spack ''r-foo'' [] [''xtable (>= 1.0)'', ''xtable (>= 2.0)'', ''dplyr''] =
     Inr [(''r-xtable'', example_dep ''r-xtable@2.0:'' 0), (''r-dplyr'', example_dep ''r-dplyr'' 0)] \<and>
   map_of [(''r-xtable'', example_dep ''r-xtable@2.0:'' 0), (''r-dplyr'', example_dep ''r-dplyr'' 0)]
     ''r-xtable'' = Some (example_dep ''r-xtable@2.0:'' 0)"
proof -
  have t: "dep_text ''xtable (>= 1.0)'' = Inr (''r-xtable'', ''r-xtable@1.0:'')"
    "dep_text ''xtable (>= 2.0)'' = Inr (''r-xtable'', ''r-xtable@2.0:'')"
    "dep_text ''dplyr'' = Inr (''r-dplyr'', ''r-dplyr'')"
    by code_simp+
  have b: "build_deps example_spack ''r-foo'' [] ([''xtable (>= 1.0)''] @ ''xtable (>= 2.0)'' # [''dplyr'']) =
     Inr [(''r-xtable'', example_dep ''r-xtable@2.0:'' 0), (''r-dplyr'', example_dep ''r-dplyr'' 0)]"
    by (simp add: normalize_dep_def t example_spack_def example_dep_def)
  have n: "normalize_dep example_spack ''r-foo'' ''xtable (>= 2.0)'' =
      Inr (''r-xtable'', example_dep ''r-xtable@2.0:'' 0)"
    by (simp add: normalize_dep_def t example_spack_def example_dep_def)
  have l: "\<forall>y\<in>set [''dplyr'']. \<forall>t. dep_text y \<noteq> Inr (''r-xtable'', t)"
    by (simp add: t)
  show ?thesis
    using last_specifier_wins [OF b n l] b by simp
qed

end
